theory Spec2Isabelle
  imports Complex_Main "HOL-Library.Word" "HOL-Library.Log_Nat"
begin

section \<open>Binary64 arithmetic\<close>

text \<open>
  The program computes with \<open>fp64 = double\<close>. A finite double is a dyadic rational, so the
  model carries doubles as rationals and rounds the exact result of every operation to
  the nearest double, ties to even: 53 significant bits, the exponent of the last bit
  never below \<open>-1074\<close> (the subnormal range). No operation is fused and none is carried
  out in a wider format. Infinities and NaN are not modelled: every value of
  \<open>get_time_data\<close> is below \<open>2 ^ 32\<close> in magnitude and the only divisors are the non-zero
  constants \<open>NDS_FPS\<close> and \<open>S_PER_MIN\<close>; in \<open>second_to_delay\<close> a product beyond the largest
  double is far outside \<open>ui32\<close>, where the conversion is undefined already.
\<close>

type_synonym fp64 = rat
type_synonym ui8 = "8 word"
type_synonym ui32 = "32 word"

text \<open>Nearest integer, ties to the even one.\<close>

definition rne :: "rat \<Rightarrow> int" where
  "rne x = (let f = \<lfloor>x\<rfloor>; d = x - of_int f in
     if d < 1 / 2 then f else if 1 / 2 < d then f + 1 else if even f then f else f + 1)"

text \<open>The binary exponent \<open>e\<close> of \<open>x \<noteq> 0\<close>: \<open>2 powi e \<le> \<bar>x\<bar> < 2 powi (e + 1)\<close>.\<close>

definition expo :: "rat \<Rightarrow> int" where
  "expo x = (let a = \<bar>x\<bar> in
     if 1 \<le> a then bitlen \<lfloor>a\<rfloor> - 1 else - bitlen (\<lceil>1 / a\<rceil> - 1))"

text \<open>The exponent of the unit in the last place of the double nearest to \<open>x\<close>.\<close>

definition ulp_exp :: "rat \<Rightarrow> int" where
  "ulp_exp x = max (expo x - 52) (- 1074)"

definition fp64_round :: "rat \<Rightarrow> fp64" where
  "fp64_round x = of_int (rne (x / 2 powi ulp_exp x)) * 2 powi ulp_exp x"

definition fadd :: "fp64 \<Rightarrow> fp64 \<Rightarrow> fp64" where
  "fadd x y = fp64_round (x + y)"

definition fsub :: "fp64 \<Rightarrow> fp64 \<Rightarrow> fp64" where
  "fsub x y = fp64_round (x - y)"

definition fmul :: "fp64 \<Rightarrow> fp64 \<Rightarrow> fp64" where
  "fmul x y = fp64_round (x * y)"

definition fdiv :: "fp64 \<Rightarrow> fp64 \<Rightarrow> fp64" where
  "fdiv x y = fp64_round (x / y)"

text \<open>Truncation toward zero, the rule of a conversion from floating point to an integer.\<close>

definition trunc :: "rat \<Rightarrow> int" where
  "trunc x = (if 0 \<le> x then \<lfloor>x\<rfloor> else \<lceil>x\<rceil>)"

text \<open>
  \<open>std::fmod x y\<close> is \<open>x - n * y\<close> for the integer \<open>n\<close> that is \<open>x / y\<close> truncated toward
  zero: the result has the sign of \<open>x\<close>, is smaller than \<open>y\<close> in magnitude and is always
  a double, so it is not rounded.
\<close>

definition fmod :: "fp64 \<Rightarrow> fp64 \<Rightarrow> fp64" where
  "fmod x y = x - of_int (trunc (x / y)) * y"

text \<open>\<open>static_cast<fp64>\<close> of an unsigned integer of at most 32 bits is exact.\<close>

definition fp64_of_ui32 :: "ui32 \<Rightarrow> fp64" where
  "fp64_of_ui32 w = of_int (uint w)"

definition fp64_of_ui8 :: "ui8 \<Rightarrow> fp64" where
  "fp64_of_ui8 w = of_int (uint w)"

text \<open>
  \<open>static_cast<ui32>\<close> and \<open>static_cast<ui8>\<close> of a double truncate toward zero. When the
  truncated value does not fit the target type the C++ standard leaves the conversion
  undefined and the program does not check; the model keeps the low bits of the
  truncated integer there.
\<close>

definition ui32_of_fp64 :: "fp64 \<Rightarrow> ui32" where
  "ui32_of_fp64 x = word_of_int (trunc x)"

definition ui8_of_fp64 :: "fp64 \<Rightarrow> ui8" where
  "ui8_of_fp64 x = word_of_int (trunc x)"

section \<open>The time data\<close>

text \<open>The constants: a decimal literal denotes the double nearest to it.\<close>

definition S_PER_MIN :: fp64 where
  "S_PER_MIN = fp64_round 60"

definition NDS_FPS :: fp64 where
  "NDS_FPS = fp64_round (598261 / 10000)"

definition MIN_BOOT_TIME :: fp64 where
  "MIN_BOOT_TIME = fp64_round 14"

definition BOOT_FUDGE :: fp64 where
  "BOOT_FUDGE = fp64_round (2 / 10)"

record TimeData =
  boot_time :: fp64
  load_time :: fp64
  offset :: ui8

definition delay_to_second :: "ui32 \<Rightarrow> fp64" where
  "delay_to_second t_delay = fdiv (fp64_of_ui32 t_delay) NDS_FPS"

definition second_to_delay :: "fp64 \<Rightarrow> ui32" where
  "second_to_delay t_second = ui32_of_fp64 (fmul t_second NDS_FPS)"

text \<open>
  \<open>ASSERT(exp)\<close> expands to nothing unless \<open>DEBUG\<close> is defined; with \<open>DEBUG\<close> it expands
  to \<open>if(!exp) { __debugbreak(); }\<close> with \<open>exp\<close> pasted without parentheses. At its one
  use the condition reads \<open>!time_data.load_time > 0.0\<close>, that is
  \<open>(!time_data.load_time) > 0.0\<close>: the negation of a double is \<open>true\<close> when the double is
  zero, and the comparison converts it to \<open>1.0\<close> or \<open>0.0\<close>.
\<close>

definition assert_breaks :: "fp64 \<Rightarrow> bool" where
  "assert_breaks t_load_time = ((0::rat) < (if t_load_time = 0 then 1 else 0))"

datatype trap = DebugBreak

text \<open>
  The loop \<open>while (boot_time < MIN_BOOT_TIME) boot_time += S_PER_MIN\<close>. Nothing in the
  program bounds it, so it is a partial function: \<open>None\<close> is a loop that never ends. The
  counter is the number of additions made so far.
\<close>

partial_function (option) boot_loop :: "nat \<Rightarrow> fp64 \<Rightarrow> (nat \<times> fp64) option" where
  "boot_loop n b =
     (if b < MIN_BOOT_TIME then boot_loop (Suc n) (fadd b S_PER_MIN) else Some (n, b))"

declare boot_loop.simps [code]

text \<open>The load time, the first statement of \<open>get_time_data\<close>.\<close>

definition calc_load_time :: "ui32 \<Rightarrow> ui8 \<Rightarrow> ui32 \<Rightarrow> fp64" where
  "calc_load_time t_calibrated_delay t_calibrated_second t_target_delay =
     fadd (delay_to_second (t_target_delay - t_calibrated_delay))
       (fp64_of_ui8 t_calibrated_second)"

text \<open>The boot time before the loop.\<close>

definition calc_boot_time :: "ui8 \<Rightarrow> fp64 \<Rightarrow> fp64" where
  "calc_boot_time t_target_second t_load_time =
     fadd (fmod (fsub (fp64_of_ui8 t_target_second) t_load_time) S_PER_MIN) BOOT_FUDGE"

text \<open>
  \<open>get_time_data\<close>, with the build as its first argument (\<open>True\<close>: \<open>DEBUG\<close> is defined).
  The result is \<open>None\<close> when the loop does not end, \<open>Some (Inl DebugBreak)\<close> when the
  assertion stops the program, \<open>Some (Inr time_data)\<close> when the function returns. The
  second component of \<open>time_data_steps\<close> is the number of times the loop body ran.
\<close>

definition time_data_steps ::
  "bool \<Rightarrow> ui32 \<Rightarrow> ui8 \<Rightarrow> ui32 \<Rightarrow> ui8 \<Rightarrow> (trap + TimeData \<times> nat) option" where
  "time_data_steps debug t_calibrated_delay t_calibrated_second t_target_delay t_target_second =
     (let lt = calc_load_time t_calibrated_delay t_calibrated_second t_target_delay in
      if debug \<and> assert_breaks lt then Some (Inl DebugBreak)
      else case boot_loop 0 (calc_boot_time t_target_second lt) of
        None \<Rightarrow> None
      | Some (n, bt) \<Rightarrow>
          Some (Inr (\<lparr>boot_time = bt, load_time = lt,
            offset = ui8_of_fp64 (fdiv (fadd bt lt) S_PER_MIN)\<rparr>, n)))"

definition get_time_data ::
  "bool \<Rightarrow> ui32 \<Rightarrow> ui8 \<Rightarrow> ui32 \<Rightarrow> ui8 \<Rightarrow> (trap + TimeData) option" where
  "get_time_data debug t_calibrated_delay t_calibrated_second t_target_delay t_target_second =
     map_option (map_sum id fst)
       (time_data_steps debug t_calibrated_delay t_calibrated_second t_target_delay
          t_target_second)"

section \<open>Rounding to the nearest integer and the binary exponent\<close>

text \<open>
  \<open>rne\<close> is within a half of its argument, fixes the integers and is monotone; \<open>expo\<close> is
  the exponent of the binade of its argument.
\<close>

lemma rne_floor_le: "\<lfloor>x\<rfloor> \<le> rne x"
  by (simp add: rne_def Let_def)

lemma rne_le_floor_Suc: "rne x \<le> \<lfloor>x\<rfloor> + 1"
  by (simp add: rne_def Let_def)

lemma rne_of_int [simp]: "rne (of_int n) = n"
  by (simp add: rne_def Let_def)

lemma rne_error: "\<bar>of_int (rne x) - x\<bar> \<le> 1 / 2"
proof -
  have "of_int \<lfloor>x\<rfloor> \<le> x" "x < of_int \<lfloor>x\<rfloor> + 1"
    by linarith+
  then show ?thesis
    by (auto simp add: rne_def Let_def abs_le_iff)
qed

lemma rne_ge_int:
  assumes "of_int n \<le> x"
  shows "n \<le> rne x"
proof -
  from assms have "n \<le> \<lfloor>x\<rfloor>" by (simp add: le_floor_iff)
  with rne_floor_le [of x] show ?thesis by linarith
qed

lemma rne_le_int:
  assumes "x \<le> of_int n"
  shows "rne x \<le> n"
proof (cases "x = of_int n")
  case True
  then show ?thesis by simp
next
  case False
  with assms have "x < of_int n" by simp
  then have "\<lfloor>x\<rfloor> < n" by (simp add: floor_less_iff)
  with rne_le_floor_Suc [of x] show ?thesis by linarith
qed

lemma rne_mono:
  assumes "x \<le> y"
  shows "rne x \<le> rne y"
proof (cases "\<lfloor>x\<rfloor> = \<lfloor>y\<rfloor>")
  case True
  with assms show ?thesis
    by (auto simp add: rne_def Let_def)
next
  case False
  with assms have "\<lfloor>x\<rfloor> < \<lfloor>y\<rfloor>"
    using floor_mono [of x y] by linarith
  with rne_le_floor_Suc [of x] rne_floor_le [of y] show ?thesis by linarith
qed

lemma pow2_le_of_int:
  assumes "2 ^ k \<le> (n::int)"
  shows "(2::rat) ^ k \<le> of_int n"
proof -
  from assms have "(of_int (2 ^ k) :: rat) \<le> of_int n"
    by (simp only: of_int_le_iff)
  then show ?thesis by simp
qed

lemma of_int_less_pow2:
  assumes "(n::int) < 2 ^ k"
  shows "(of_int n :: rat) + 1 \<le> 2 ^ k"
proof -
  from assms have "n + 1 \<le> 2 ^ k" by simp
  then have "(of_int (n + 1) :: rat) \<le> of_int (2 ^ k)"
    by (simp only: of_int_le_iff)
  then show ?thesis by simp
qed

lemma two_powi_nonneg: "0 \<le> e \<Longrightarrow> (2::rat) powi e = 2 ^ nat e"
  by (simp add: power_int_def)

lemma two_powi_neg: "0 \<le> e \<Longrightarrow> (2::rat) powi (- e) = 1 / 2 ^ nat e"
  by (simp add: power_int_def field_simps)

lemma expo_bounds:
  assumes "x \<noteq> 0"
  shows "2 powi expo x \<le> \<bar>x\<bar>" and "\<bar>x\<bar> < 2 powi (expo x + 1)"
proof -
  define a where "a = \<bar>x\<bar>"
  have a: "0 < a" using assms by (simp add: a_def)
  have "2 powi expo x \<le> a \<and> a < 2 powi (expo x + 1)"
  proof (cases "1 \<le> a")
    case True
    define n where "n = \<lfloor>a\<rfloor>"
    have n: "0 < n" using True by (simp add: n_def)
    have e: "expo x = bitlen n - 1"
      using True by (simp add: expo_def a_def n_def Let_def)
    have b1: "1 \<le> bitlen n" using n by (simp add: bitlen_alt_def)
    from bitlen_bounds [OF n] have lo: "2 ^ nat (bitlen n - 1) \<le> n" and hi: "n < 2 ^ nat (bitlen n)"
      by simp_all
    have na: "of_int n \<le> a" "a < of_int n + 1"
      unfolding n_def by linarith+
    have "(2::rat) powi (bitlen n - 1) = 2 ^ nat (bitlen n - 1)"
      using b1 by (simp add: two_powi_nonneg)
    moreover from pow2_le_of_int [OF lo] na have "(2::rat) ^ nat (bitlen n - 1) \<le> a"
      by linarith
    ultimately have 1: "2 powi expo x \<le> a" by (simp add: e)
    have "(2::rat) powi (bitlen n) = 2 ^ nat (bitlen n)"
      using b1 by (simp add: two_powi_nonneg)
    moreover from of_int_less_pow2 [OF hi] na have "a < (2::rat) ^ nat (bitlen n)"
      by linarith
    ultimately have "a < 2 powi (expo x + 1)" by (simp add: e)
    with 1 show ?thesis by simp
  next
    case False
    define t where "t = 1 / a"
    define c where "c = \<lceil>t\<rceil> - 1"
    have t: "1 < t" using False a by (simp add: t_def)
    then have "1 < \<lceil>t\<rceil>" by (simp add: less_ceiling_iff)
    then have c: "0 < c" by (simp add: c_def)
    have e: "expo x = - bitlen c"
      using False by (simp add: expo_def a_def [symmetric] c_def t_def Let_def)
    have b1: "1 \<le> bitlen c" using c by (simp add: bitlen_alt_def)
    from bitlen_bounds [OF c] have lo: "2 ^ nat (bitlen c - 1) \<le> c" and hi: "c < 2 ^ nat (bitlen c)"
      by simp_all
    have ct: "of_int c < t" "t \<le> of_int c + 1"
      unfolding c_def by (simp_all add: less_ceiling_iff [symmetric]) linarith+
    from pow2_le_of_int [OF lo] ct have "(2::rat) ^ nat (bitlen c - 1) < t" by linarith
    then have "a * 2 ^ nat (bitlen c - 1) < 1"
      using a by (simp add: t_def field_simps)
    then have "a < 1 / 2 ^ nat (bitlen c - 1)"
      by (simp add: field_simps)
    also have "\<dots> = 2 powi (- (bitlen c - 1))"
      using b1 two_powi_neg [of "bitlen c - 1"] by simp
    finally have 2: "a < 2 powi (expo x + 1)" by (simp add: e)
    from of_int_less_pow2 [OF hi] ct have "t \<le> 2 ^ nat (bitlen c)" by linarith
    then have "1 \<le> a * 2 ^ nat (bitlen c)"
      using a by (simp add: t_def field_simps)
    then have "1 / 2 ^ nat (bitlen c) \<le> a"
      by (simp add: field_simps)
    moreover have "1 / 2 ^ nat (bitlen c) = (2::rat) powi (- bitlen c)"
      using b1 two_powi_neg [of "bitlen c"] by simp
    ultimately have "2 powi expo x \<le> a" by (simp add: e)
    with 2 show ?thesis by simp
  qed
  then show "2 powi expo x \<le> \<bar>x\<bar>" and "\<bar>x\<bar> < 2 powi (expo x + 1)"
    by (simp_all add: a_def)
qed

section \<open>Rounding to a double\<close>

text \<open>
  Rounding never crosses a multiple of a power of two that is at least the unit in the last
  place (\<open>fp64_round_le_grid\<close>, \<open>fp64_round_ge_grid\<close>). From that: doubles are fixed
  points, rounding is monotone, and the error is at most half a unit in the last place,
  that is \<open>\<bar>x\<bar> / 2 ^ 53\<close> in the normal range and \<open>1 / 2 ^ 1075\<close> below it.
\<close>

lemma expo_less:
  assumes "x \<noteq> 0" and "\<bar>x\<bar> < 2 powi j"
  shows "expo x < j"
proof (rule ccontr)
  assume "\<not> expo x < j"
  then have "j \<le> expo x" by simp
  then have "(2::rat) powi j \<le> 2 powi expo x"
    by (rule power_int_increasing) simp
  with expo_bounds(1) [OF assms(1)] assms(2) show False by linarith
qed

lemma expo_ge:
  assumes "x \<noteq> 0" and "2 powi j \<le> \<bar>x\<bar>"
  shows "j \<le> expo x"
proof (rule ccontr)
  assume "\<not> j \<le> expo x"
  then have "expo x + 1 \<le> j" by simp
  then have "(2::rat) powi (expo x + 1) \<le> 2 powi j"
    by (rule power_int_increasing) simp
  with expo_bounds(2) [OF assms(1)] assms(2) show False by linarith
qed

lemma expo_mono:
  assumes "x \<noteq> 0" and "\<bar>x\<bar> \<le> \<bar>y\<bar>"
  shows "expo x \<le> expo y"
proof -
  from assms have y: "y \<noteq> 0" by auto
  from expo_bounds(1) [OF assms(1)] assms(2) have "2 powi expo x \<le> \<bar>y\<bar>" by linarith
  with y show ?thesis by (rule expo_ge)
qed

lemma ulp_exp_mono: "x \<noteq> 0 \<Longrightarrow> \<bar>x\<bar> \<le> \<bar>y\<bar> \<Longrightarrow> ulp_exp x \<le> ulp_exp y"
  using expo_mono [of x y] by (simp add: ulp_exp_def)

lemma ulp_exp_le:
  assumes "x \<noteq> 0" and "\<bar>x\<bar> < 2 powi (k + 53)" and "- 1074 \<le> k"
  shows "ulp_exp x \<le> k"
  using expo_less [OF assms(1,2)] assms(3) by (simp add: ulp_exp_def)

lemma two_powi_split:
  assumes "e \<le> k"
  shows "(2::rat) powi k = 2 powi e * 2 ^ nat (k - e)"
proof -
  have "(2::rat) powi (e + (k - e)) = 2 powi e * 2 powi (k - e)"
    by (rule power_int_add) simp
  moreover have "(2::rat) powi (k - e) = 2 ^ nat (k - e)"
    using assms by (simp add: two_powi_nonneg)
  ultimately show ?thesis by simp
qed

lemma fp64_round_le_grid:
  assumes "ulp_exp x \<le> k" and "x \<le> of_int m * 2 powi k"
  shows "fp64_round x \<le> of_int m * 2 powi k"
proof -
  define e where "e = ulp_exp x"
  define M where "M = m * 2 ^ nat (k - e)"
  have pos: "(0::rat) < 2 powi e" by simp
  have k: "(2::rat) powi k = 2 powi e * 2 ^ nat (k - e)"
    using assms(1) unfolding e_def by (rule two_powi_split)
  have g: "of_int m * 2 powi k = of_int M * (2::rat) powi e"
    by (simp add: M_def k)
  with assms(2) have "x \<le> of_int M * 2 powi e" by simp
  with pos have "x / 2 powi e \<le> of_int M"
    by (simp add: pos_divide_le_eq)
  then have "rne (x / 2 powi e) \<le> M" by (rule rne_le_int)
  then have "(of_int (rne (x / 2 powi e)) :: rat) \<le> of_int M"
    by (simp only: of_int_le_iff)
  with pos have "of_int (rne (x / 2 powi e)) * 2 powi e \<le> of_int M * (2::rat) powi e"
    by (simp only: mult_le_cancel_right_pos)
  then show ?thesis by (simp add: fp64_round_def e_def g)
qed

lemma fp64_round_ge_grid:
  assumes "ulp_exp x \<le> k" and "of_int m * 2 powi k \<le> x"
  shows "of_int m * 2 powi k \<le> fp64_round x"
proof -
  define e where "e = ulp_exp x"
  define M where "M = m * 2 ^ nat (k - e)"
  have pos: "(0::rat) < 2 powi e" by simp
  have k: "(2::rat) powi k = 2 powi e * 2 ^ nat (k - e)"
    using assms(1) unfolding e_def by (rule two_powi_split)
  have g: "of_int m * 2 powi k = of_int M * (2::rat) powi e"
    by (simp add: M_def k)
  with assms(2) have "of_int M * 2 powi e \<le> x" by simp
  with pos have "of_int M \<le> x / 2 powi e"
    by (simp add: pos_le_divide_eq)
  then have "M \<le> rne (x / 2 powi e)" by (rule rne_ge_int)
  then have "(of_int M :: rat) \<le> of_int (rne (x / 2 powi e))"
    by (simp only: of_int_le_iff)
  with pos have "of_int M * (2::rat) powi e \<le> of_int (rne (x / 2 powi e)) * 2 powi e"
    by (simp only: mult_le_cancel_right_pos)
  then show ?thesis by (simp add: fp64_round_def e_def g)
qed

lemma fp64_round_0 [simp]: "fp64_round 0 = 0"
  using rne_of_int [of 0] by (simp add: fp64_round_def)

lemma fp64_round_nonneg: "0 \<le> x \<Longrightarrow> 0 \<le> fp64_round x"
  using fp64_round_ge_grid [of x "ulp_exp x" 0] by simp

lemma fp64_round_nonpos: "x \<le> 0 \<Longrightarrow> fp64_round x \<le> 0"
  using fp64_round_le_grid [of x "ulp_exp x" 0] by simp

lemma fp64_round_exact:
  assumes "x = of_int m * 2 powi k" and "\<bar>m\<bar> < 2 ^ 53" and "- 1074 \<le> k"
  shows "fp64_round x = x"
proof (cases "x = 0")
  case True
  then show ?thesis by simp
next
  case False
  have "\<bar>x\<bar> = of_int \<bar>m\<bar> * 2 powi k"
    by (simp add: assms(1) abs_mult)
  moreover have "(of_int \<bar>m\<bar> :: rat) < of_int (2 ^ 53)"
    using assms(2) by (simp only: of_int_less_iff)
  then have "of_int \<bar>m\<bar> * (2::rat) powi k < of_int (2 ^ 53) * 2 powi k"
    by (simp only: mult_less_cancel_right_pos zero_less_power_int zero_less_numeral)
  moreover have "(2::rat) powi (k + 53) = 2 powi k * 2 powi 53"
    by (rule power_int_add) simp
  ultimately have "\<bar>x\<bar> < 2 powi (k + 53)" by (simp add: mult.commute)
  with False have u: "ulp_exp x \<le> k" using assms(3) by (rule ulp_exp_le)
  from fp64_round_le_grid [OF u, of m] fp64_round_ge_grid [OF u, of m] assms(1)
  show ?thesis by simp
qed

lemma fp64_round_of_int:
  "\<bar>n\<bar> < 2 ^ 53 \<Longrightarrow> fp64_round (of_int n) = of_int n"
  using fp64_round_exact [of "of_int n" n 0] by simp

lemma fp64_round_mono:
  assumes "x \<le> y"
  shows "fp64_round x \<le> fp64_round y"
proof -
  consider "x \<le> 0" "0 \<le> y" | "0 < x" | "y < 0" using assms by linarith
  then show ?thesis
  proof cases
    case 1
    with fp64_round_nonpos [of x] fp64_round_nonneg [of y] show ?thesis by linarith
  next
    case 2
    with assms have y: "0 < y" by simp
    from 2 y assms have le: "ulp_exp x \<le> ulp_exp y"
      by (intro ulp_exp_mono) simp_all
    show ?thesis
    proof (cases "ulp_exp x = ulp_exp y")
      case True
      have "x / 2 powi ulp_exp y \<le> y / 2 powi ulp_exp y"
        using assms by (simp add: divide_right_mono)
      then have "rne (x / 2 powi ulp_exp y) \<le> rne (y / 2 powi ulp_exp y)"
        by (rule rne_mono)
      then have "(of_int (rne (x / 2 powi ulp_exp y)) :: rat) \<le> of_int (rne (y / 2 powi ulp_exp y))"
        by (simp only: of_int_le_iff)
      then show ?thesis
        by (simp add: fp64_round_def True)
    next
      case False
      with le have lt: "ulp_exp x < ulp_exp y" by simp
      then have ey: "ulp_exp y = expo y - 52" and exy: "expo x < expo y"
        by (simp_all add: ulp_exp_def max_def split: if_splits)
      from 2 expo_bounds(2) [of x] have "x < 2 powi (expo x + 1)" by simp
      moreover from exy have "(2::rat) powi (expo x + 1) \<le> 2 powi expo y"
        by (intro power_int_increasing) simp_all
      ultimately have "x \<le> of_int 1 * 2 powi expo y" by simp
      moreover from lt ey have "ulp_exp x \<le> expo y" by simp
      ultimately have a: "fp64_round x \<le> of_int 1 * 2 powi expo y"
        by (intro fp64_round_le_grid)
      from y expo_bounds(1) [of y] have "of_int 1 * 2 powi expo y \<le> y" by simp
      moreover from ey have "ulp_exp y \<le> expo y" by simp
      ultimately have "of_int 1 * 2 powi expo y \<le> fp64_round y"
        by (intro fp64_round_ge_grid)
      with a show ?thesis by linarith
    qed
  next
    case 3
    with assms have x: "x < 0" by simp
    from 3 x assms have le: "ulp_exp y \<le> ulp_exp x"
      by (intro ulp_exp_mono) simp_all
    show ?thesis
    proof (cases "ulp_exp x = ulp_exp y")
      case True
      have "x / 2 powi ulp_exp y \<le> y / 2 powi ulp_exp y"
        using assms by (simp add: divide_right_mono)
      then have "rne (x / 2 powi ulp_exp y) \<le> rne (y / 2 powi ulp_exp y)"
        by (rule rne_mono)
      then have "(of_int (rne (x / 2 powi ulp_exp y)) :: rat) \<le> of_int (rne (y / 2 powi ulp_exp y))"
        by (simp only: of_int_le_iff)
      then show ?thesis
        by (simp add: fp64_round_def True)
    next
      case False
      with le have lt: "ulp_exp y < ulp_exp x" by simp
      then have ex: "ulp_exp x = expo x - 52" and exy: "expo y < expo x"
        by (simp_all add: ulp_exp_def max_def split: if_splits)
      from 3 expo_bounds(2) [of y] have "- y < 2 powi (expo y + 1)" by simp
      moreover from exy have "(2::rat) powi (expo y + 1) \<le> 2 powi expo x"
        by (intro power_int_increasing) simp_all
      ultimately have "of_int (- 1) * 2 powi expo x \<le> y" by simp
      moreover from lt ex have "ulp_exp y \<le> expo x" by simp
      ultimately have a: "of_int (- 1) * 2 powi expo x \<le> fp64_round y"
        by (intro fp64_round_ge_grid)
      from x expo_bounds(1) [of x] have "x \<le> of_int (- 1) * 2 powi expo x" by simp
      moreover from ex have "ulp_exp x \<le> expo x" by simp
      ultimately have "fp64_round x \<le> of_int (- 1) * 2 powi expo x"
        by (intro fp64_round_le_grid)
      with a show ?thesis by linarith
    qed
  qed
qed

lemma fp64_round_error_ulp: "\<bar>fp64_round x - x\<bar> \<le> 2 powi ulp_exp x / 2"
proof -
  define e where "e = ulp_exp x"
  define z where "z = x / 2 powi e"
  have x: "x = z * 2 powi e" by (simp add: z_def)
  have "fp64_round x = of_int (rne z) * 2 powi e"
    by (simp add: fp64_round_def e_def z_def)
  with x have "fp64_round x - x = (of_int (rne z) - z) * 2 powi e"
    by (simp add: algebra_simps)
  then have "\<bar>fp64_round x - x\<bar> = \<bar>of_int (rne z) - z\<bar> * 2 powi e"
    by (simp add: abs_mult)
  also have "\<dots> \<le> (1 / 2) * 2 powi e"
    by (intro mult_right_mono rne_error) simp
  finally show ?thesis by (simp add: e_def)
qed

lemma fp64_round_error: "\<bar>fp64_round x - x\<bar> \<le> \<bar>x\<bar> / 2 ^ 53 + 1 / 2 ^ 1075"
proof (cases "x = 0")
  case True
  then show ?thesis by simp
next
  case False
  have "(2::rat) powi (expo x - 52) = 2 powi expo x * 2 powi (- 52)"
    using power_int_add [of "2::rat" "expo x" "- 52"] by simp
  also have "\<dots> \<le> \<bar>x\<bar> * 2 powi (- 52)"
    by (intro mult_right_mono expo_bounds(1) False) simp
  finally have a: "(2::rat) powi (expo x - 52) \<le> \<bar>x\<bar> / 2 ^ 52"
    by (simp add: power_int_minus field_simps)
  have b: "(2::rat) powi (- 1074) = 1 / 2 ^ 1074"
    by (simp add: power_int_minus field_simps)
  have "(2::rat) powi ulp_exp x \<le> \<bar>x\<bar> / 2 ^ 52 + 1 / 2 ^ 1074"
  proof (cases "expo x - 52 \<le> - 1074")
    case True
    then have "ulp_exp x = - 1074" by (simp add: ulp_exp_def)
    with b show ?thesis by simp
  next
    case False
    then have "ulp_exp x = expo x - 52" by (simp add: ulp_exp_def)
    with a show ?thesis by simp
  qed
  with fp64_round_error_ulp [of x] show ?thesis by simp
qed

section \<open>The constants and the conversions\<close>

text \<open>
  The value of each constant, the range of the integers converted to doubles, and the
  distance of \<open>delay_to_second\<close> from the exact quotient by \<open>59.8261\<close>.
\<close>

lemma fp64_round_near:
  assumes "1 \<le> B" and "\<bar>x\<bar> \<le> B"
  shows "\<bar>fp64_round x - x\<bar> \<le> B / 2 ^ 52"
proof -
  have "\<bar>x\<bar> / 2 ^ 53 \<le> B / 2 ^ 53"
    using assms(2) by (simp add: divide_right_mono)
  moreover have "(1::rat) / 2 ^ 1075 \<le> 1 / 2 ^ 53"
    by (intro divide_left_mono power_increasing) simp_all
  moreover have "(1::rat) / 2 ^ 53 \<le> B / 2 ^ 53"
    using assms(1) by (simp add: divide_right_mono)
  moreover have "B / 2 ^ 52 = B / 2 ^ 53 + B / 2 ^ 53" by simp
  ultimately show ?thesis using fp64_round_error [of x] by linarith
qed

lemma S_PER_MIN_eq: "S_PER_MIN = 60"
  unfolding S_PER_MIN_def using fp64_round_of_int [of 60] by simp

lemma MIN_BOOT_TIME_eq: "MIN_BOOT_TIME = 14"
  unfolding MIN_BOOT_TIME_def using fp64_round_of_int [of 14] by simp

lemma NDS_FPS_eq: "NDS_FPS = 263117970377959 / 4398046511104"
  by code_simp

lemma BOOT_FUDGE_eq: "BOOT_FUDGE = 3602879701896397 / 18014398509481984"
  by code_simp

lemma fp64_round_of_nat:
  assumes "n < 2 ^ 53"
  shows "fp64_round (of_nat n) = of_nat n"
proof -
  from assms have "int n < 2 ^ 53"
    by (metis of_nat_less_iff of_nat_numeral of_nat_power)
  then have "\<bar>int n\<bar> < 2 ^ 53" by linarith
  from fp64_round_of_int [OF this] show ?thesis
    by (simp only: of_int_of_nat_eq)
qed

lemma fp64_of_ui32_nat: "fp64_of_ui32 w = of_nat (unat w)"
  unfolding fp64_of_ui32_def by simp

lemma fp64_of_ui8_nat: "fp64_of_ui8 w = of_nat (unat w)"
  unfolding fp64_of_ui8_def by simp

lemma unat_ui32_le: "unat (w :: ui32) \<le> 4294967295"
proof -
  have "unat w < 2 ^ 32"
    by (rule order_less_le_trans [OF unsigned_less]) simp
  then show ?thesis by simp
qed

lemma unat_ui8_le: "unat (w :: ui8) \<le> 255"
proof -
  have "unat w < 2 ^ 8"
    by (rule order_less_le_trans [OF unsigned_less]) simp
  then show ?thesis by simp
qed

lemma fp64_of_ui32_bounds: "0 \<le> fp64_of_ui32 w" "fp64_of_ui32 w \<le> 4294967295"
proof -
  show "0 \<le> fp64_of_ui32 w"
    unfolding fp64_of_ui32_nat by (rule of_nat_0_le_iff)
  have "(of_nat (unat w) :: rat) \<le> of_nat 4294967295"
    using unat_ui32_le [of w] by (simp only: of_nat_le_iff)
  then show "fp64_of_ui32 w \<le> 4294967295"
    unfolding fp64_of_ui32_nat by (simp only: of_nat_numeral)
qed

lemma fp64_of_ui8_bounds: "0 \<le> fp64_of_ui8 w" "fp64_of_ui8 w \<le> 255"
proof -
  show "0 \<le> fp64_of_ui8 w"
    unfolding fp64_of_ui8_nat by (rule of_nat_0_le_iff)
  have "(of_nat (unat w) :: rat) \<le> of_nat 255"
    using unat_ui8_le [of w] by (simp only: of_nat_le_iff)
  then show "fp64_of_ui8 w \<le> 255"
    unfolding fp64_of_ui8_nat by (simp only: of_nat_numeral)
qed

lemma fp64_round_fp64_of_ui8: "fp64_round (fp64_of_ui8 w) = fp64_of_ui8 w"
proof -
  have "unat w < 2 ^ 53"
    using unat_ui8_le [of w] by simp
  then show ?thesis
    unfolding fp64_of_ui8_nat by (rule fp64_round_of_nat)
qed

lemma delay_to_second_nonneg: "0 \<le> delay_to_second w"
  unfolding delay_to_second_def fdiv_def
  by (intro fp64_round_nonneg) (simp add: NDS_FPS_eq fp64_of_ui32_bounds)

lemma delay_to_second_near:
  "\<bar>delay_to_second w - fp64_of_ui32 w * 10000 / 598261\<bar> \<le> 1 / 50000000"
proof -
  define d where "d = fp64_of_ui32 w"
  have d: "0 \<le> d" "d \<le> 4294967295"
    by (simp_all add: d_def fp64_of_ui32_bounds)
  have q: "d / NDS_FPS = d * 4398046511104 / 263117970377959"
    by (simp add: NDS_FPS_eq)
  have "\<bar>d / NDS_FPS\<bar> \<le> 72000000"
    using d by (simp add: q abs_le_iff)
  then have "\<bar>fp64_round (d / NDS_FPS) - d / NDS_FPS\<bar> \<le> 72000000 / 2 ^ 52"
    by (intro fp64_round_near) simp_all
  then have "\<bar>fp64_round (d / NDS_FPS) - d / NDS_FPS\<bar> \<le> 72000000 / 4503599627370496"
    by simp
  moreover have "\<bar>d / NDS_FPS - d * 10000 / 598261\<bar> \<le> 1 / 250000000"
    using d by (simp add: q abs_le_iff)
  ultimately have "\<bar>fp64_round (d / NDS_FPS) - d * 10000 / 598261\<bar> \<le> 1 / 50000000"
    by linarith
  then show ?thesis
    by (simp only: delay_to_second_def fdiv_def d_def)
qed

section \<open>The load time\<close>

text \<open>
  The load time is at least the calibrated second, and zero only for equal delays and a
  zero calibrated second. The difference of two \<open>ui32\<close> wraps.
\<close>

lemma calc_load_time_ge: "fp64_of_ui8 cs \<le> calc_load_time cd cs td"
proof -
  have "fp64_of_ui8 cs \<le> delay_to_second (td - cd) + fp64_of_ui8 cs"
    using delay_to_second_nonneg [of "td - cd"] by simp
  then have "fp64_round (fp64_of_ui8 cs)
      \<le> fp64_round (delay_to_second (td - cd) + fp64_of_ui8 cs)"
    by (rule fp64_round_mono)
  then show ?thesis
    by (simp add: calc_load_time_def fadd_def fp64_round_fp64_of_ui8)
qed

lemma calc_load_time_nonneg: "0 \<le> calc_load_time cd cs td"
  using calc_load_time_ge [of cs cd td] fp64_of_ui8_bounds(1) [of cs] by linarith

lemma fp64_round_64th: "fp64_round (1 / 64) = 1 / 64"
  using fp64_round_exact [of "1 / 64" 1 "- 6"] by (simp add: power_int_minus)

lemma delay_to_second_pos:
  assumes "w \<noteq> 0"
  shows "1 / 64 \<le> delay_to_second w"
proof -
  from assms have "unat w \<noteq> 0" by (simp add: unat_eq_0)
  then have "1 \<le> unat w" by simp
  then have "(of_nat 1 :: rat) \<le> of_nat (unat w)"
    by (simp only: of_nat_le_iff)
  then have "1 \<le> fp64_of_ui32 w"
    unfolding fp64_of_ui32_nat by (simp only: of_nat_1)
  then have "1 / 64 \<le> fp64_of_ui32 w / NDS_FPS"
    by (simp add: NDS_FPS_eq)
  then have "fp64_round (1 / 64) \<le> fp64_round (fp64_of_ui32 w / NDS_FPS)"
    by (rule fp64_round_mono)
  then show ?thesis
    by (simp only: fp64_round_64th delay_to_second_def fdiv_def)
qed

lemma delay_to_second_0: "delay_to_second 0 = 0"
  by (simp add: delay_to_second_def fdiv_def fp64_of_ui32_def)

lemma fp64_of_ui8_0: "fp64_of_ui8 0 = 0"
  by (simp add: fp64_of_ui8_def)

lemma fp64_of_ui8_pos:
  assumes "w \<noteq> 0"
  shows "1 \<le> fp64_of_ui8 w"
proof -
  from assms have "unat w \<noteq> 0" by (simp add: unat_eq_0)
  then have "1 \<le> unat w" by simp
  then have "(of_nat 1 :: rat) \<le> of_nat (unat w)"
    by (simp only: of_nat_le_iff)
  then show ?thesis
    unfolding fp64_of_ui8_nat by (simp only: of_nat_1)
qed

lemma calc_load_time_eq_0_iff:
  "calc_load_time cd cs td = 0 \<longleftrightarrow> td = cd \<and> cs = 0"
proof
  assume z: "calc_load_time cd cs td = 0"
  have "cs = 0"
  proof (rule ccontr)
    assume "cs \<noteq> 0"
    from fp64_of_ui8_pos [OF this] calc_load_time_ge [of cs cd td] z
    show False by linarith
  qed
  moreover have "td = cd"
  proof (rule ccontr)
    assume "td \<noteq> cd"
    then have "td - cd \<noteq> 0" by simp
    from delay_to_second_pos [OF this] fp64_of_ui8_bounds(1) [of cs]
    have "1 / 64 \<le> delay_to_second (td - cd) + fp64_of_ui8 cs" by linarith
    then have "fp64_round (1 / 64) \<le> fp64_round (delay_to_second (td - cd) + fp64_of_ui8 cs)"
      by (rule fp64_round_mono)
    then have "1 / 64 \<le> calc_load_time cd cs td"
      by (simp only: fp64_round_64th calc_load_time_def fadd_def)
    with z show False by simp
  qed
  ultimately show "td = cd \<and> cs = 0" by simp
next
  assume "td = cd \<and> cs = 0"
  then show "calc_load_time cd cs td = 0"
    by (simp add: calc_load_time_def fadd_def delay_to_second_0 fp64_of_ui8_0)
qed

lemma ui32_sub_wraps:
  "uint (td - cd :: ui32) = (uint td - uint cd) mod 2 ^ 32"
  by (simp add: uint_word_ariths)

lemma ui32_sub_underflow:
  "uint (td - cd :: ui32) =
     (if td < cd then 2 ^ 32 - (uint cd - uint td) else uint td - uint cd)"
  by (simp add: uint_sub_if' word_less_alt)

section \<open>The remainder and the loop\<close>

text \<open>
  The remainder is below its divisor in magnitude, so the boot time before the loop is at
  least \<open>- 60\<close>: the loop ends after at most two additions. The last lemma is the
  arithmetic behind the upper bound of the boot time: \<open>10000 * d / 598261\<close> is never close
  to an integer plus a fifth, because \<open>50000 * d - (5 * n + 1) * 598261\<close> is \<open>4\<close> modulo \<open>5\<close>.
\<close>

lemma trunc_near: "\<bar>x - of_int (trunc x)\<bar> < 1"
proof (cases "0 \<le> x")
  case True
  have "of_int \<lfloor>x\<rfloor> \<le> x" "x < of_int \<lfloor>x\<rfloor> + 1" by linarith+
  with True show ?thesis by (simp add: trunc_def abs_less_iff)
next
  case False
  have "x \<le> of_int \<lceil>x\<rceil>" "of_int \<lceil>x\<rceil> < x + 1" by linarith+
  with False show ?thesis by (simp add: trunc_def abs_less_iff)
qed

lemma fmod_abs_less:
  assumes "0 < y"
  shows "\<bar>fmod x y\<bar> < y"
proof -
  have "fmod x y = (x / y - of_int (trunc (x / y))) * y"
    using assms by (simp add: fmod_def algebra_simps)
  then have "\<bar>fmod x y\<bar> = \<bar>x / y - of_int (trunc (x / y))\<bar> * y"
    using assms by (simp add: abs_mult)
  also have "\<dots> < 1 * y"
    using assms trunc_near [of "x / y"] by (simp only: mult_less_cancel_right_pos)
  finally show ?thesis by simp
qed

lemma fp64_round_60: "fp64_round 60 = 60"
  using fp64_round_of_int [of 60] by simp

lemma fp64_round_m60: "fp64_round (- 60) = - 60"
  using fp64_round_of_int [of "- 60"] by simp

lemma fp64_round_61: "fp64_round 61 = 61"
  using fp64_round_of_int [of 61] by simp

lemma BOOT_FUDGE_bounds: "0 \<le> BOOT_FUDGE" "BOOT_FUDGE \<le> 1"
  by (simp_all add: BOOT_FUDGE_eq)

lemma calc_boot_time_bounds:
  "- 60 \<le> calc_boot_time ts lt" "calc_boot_time ts lt \<le> 61"
proof -
  define r where "r = fmod (fsub (fp64_of_ui8 ts) lt) S_PER_MIN"
  have "\<bar>r\<bar> < 60"
    unfolding r_def S_PER_MIN_eq by (rule fmod_abs_less) simp
  with BOOT_FUDGE_bounds have "- 60 \<le> r + BOOT_FUDGE" "r + BOOT_FUDGE \<le> 61"
    by linarith+
  then have "fp64_round (- 60) \<le> fp64_round (r + BOOT_FUDGE)"
    "fp64_round (r + BOOT_FUDGE) \<le> fp64_round 61"
    by (simp_all only: fp64_round_mono)
  then show "- 60 \<le> calc_boot_time ts lt" "calc_boot_time ts lt \<le> 61"
    by (simp_all only: fp64_round_m60 fp64_round_61 calc_boot_time_def fadd_def r_def)
qed

lemma boot_loop_unfold:
  assumes "- 60 \<le> b"
  shows "boot_loop 0 b =
    (if b < 14 then
       if fadd b 60 < 14 then Some (2, fadd (fadd b 60) 60) else Some (1, fadd b 60)
     else Some (0, b))"
proof -
  from assms have "0 \<le> b + 60" by simp
  then have "0 \<le> fadd b 60"
    unfolding fadd_def by (rule fp64_round_nonneg)
  then have "60 \<le> fadd b 60 + 60" by simp
  then have "fp64_round 60 \<le> fp64_round (fadd b 60 + 60)"
    by (rule fp64_round_mono)
  then have "60 \<le> fadd (fadd b 60) 60"
    by (simp only: fp64_round_60 fadd_def [of "fadd b 60" 60])
  then have n: "\<not> fadd (fadd b 60) 60 < 14" by simp
  have s: "boot_loop k c =
      (if c < 14 then boot_loop (Suc k) (fadd c 60) else Some (k, c))" for k c
    by (subst boot_loop.simps) (simp only: MIN_BOOT_TIME_eq S_PER_MIN_eq)
  have "boot_loop (Suc (Suc 0)) (fadd (fadd b 60) 60) = Some (2, fadd (fadd b 60) 60)"
    by (subst s) (simp add: n)
  then have "boot_loop (Suc 0) (fadd b 60) =
      (if fadd b 60 < 14 then Some (2, fadd (fadd b 60) 60) else Some (1, fadd b 60))"
    by (subst s) simp
  then show ?thesis
    by (subst s) simp
qed

lemma frames_off_fifth:
  "1 / 2991305 \<le> \<bar>of_nat d * 10000 / 598261 - of_int n - 1 / 5 :: rat\<bar>"
proof -
  define Z where "Z = 50000 * int d - (5 * n + 1) * 598261"
  define K where "K = 10000 * int d - 598261 * n - 119652"
  have "Z = 5 * K - 1" by (simp add: Z_def K_def algebra_simps)
  then have "Z \<noteq> 0" by presburger
  then have "1 \<le> \<bar>Z\<bar>" by simp
  then have "(of_int 1 :: rat) \<le> of_int \<bar>Z\<bar>"
    by (simp only: of_int_le_iff)
  then have "(1::rat) \<le> \<bar>of_int Z\<bar>" by simp
  moreover have "of_nat d * 10000 / 598261 - of_int n - 1 / 5 = (of_int Z :: rat) / 2991305"
    by (simp add: Z_def field_simps)
  ultimately show ?thesis by (simp add: abs_le_iff field_simps)
qed

section \<open>How far the computed times are from the exact ones\<close>

text \<open>
  Four roundings separate the boot time before the loop from
  \<open>target_second - calibrated_second - 10000 * d / 598261 + 1 / 5\<close> (up to a multiple of
  \<open>60\<close>); together they are below \<open>1 / 10 ^ 7\<close>. So that boot time is never within
  \<open>2 / 10 ^ 7\<close> of an integer.
\<close>

lemma calc_load_time_near:
  "\<bar>calc_load_time cd cs td
      - (fp64_of_ui32 (td - cd) * 10000 / 598261 + fp64_of_ui8 cs)\<bar> \<le> 9 / 250000000"
  and calc_load_time_le: "calc_load_time cd cs td \<le> 71800000"
proof -
  define d where "d = fp64_of_ui32 (td - cd)"
  define q where "q = delay_to_second (td - cd)"
  define c where "c = fp64_of_ui8 cs"
  have d: "0 \<le> d" "d \<le> 4294967295"
    by (simp_all add: d_def fp64_of_ui32_bounds)
  have c: "0 \<le> c" "c \<le> 255"
    by (simp_all add: c_def fp64_of_ui8_bounds)
  have q: "\<bar>q - d * 10000 / 598261\<bar> \<le> 1 / 50000000"
    unfolding q_def d_def by (rule delay_to_second_near)
  have "d * 10000 / 598261 \<le> 71790863" "0 \<le> d * 10000 / 598261"
    using d by simp_all
  with q c have "\<bar>q + c\<bar> \<le> 71791200" by linarith
  then have "\<bar>fp64_round (q + c) - (q + c)\<bar> \<le> 71791200 / 2 ^ 52"
    by (intro fp64_round_near) simp_all
  then have e: "\<bar>fp64_round (q + c) - (q + c)\<bar> \<le> 71791200 / 4503599627370496"
    by simp
  with q have "\<bar>fp64_round (q + c) - (d * 10000 / 598261 + c)\<bar> \<le> 9 / 250000000"
    by linarith
  then show "\<bar>calc_load_time cd cs td
      - (fp64_of_ui32 (td - cd) * 10000 / 598261 + fp64_of_ui8 cs)\<bar> \<le> 9 / 250000000"
    by (simp only: calc_load_time_def fadd_def q_def d_def c_def)
  from e \<open>\<bar>q + c\<bar> \<le> 71791200\<close> have "fp64_round (q + c) \<le> 71800000" by linarith
  then show "calc_load_time cd cs td \<le> 71800000"
    by (simp only: calc_load_time_def fadd_def q_def c_def)
qed

lemma calc_boot_time_near:
  "\<exists>k::int. \<bar>calc_boot_time ts (calc_load_time cd cs td)
      - (fp64_of_ui8 ts - fp64_of_ui8 cs - fp64_of_ui32 (td - cd) * 10000 / 598261
         + 1 / 5 - 60 * of_int k)\<bar> \<le> 1 / 10000000"
proof -
  define lt where "lt = calc_load_time cd cs td"
  define D where "D = fp64_of_ui32 (td - cd) * 10000 / 598261"
  define c where "c = fp64_of_ui8 cs"
  define t where "t = fp64_of_ui8 ts"
  define x where "x = fsub t lt"
  define k where "k = trunc (x / 60)"
  define r where "r = fmod x 60"
  have lt: "\<bar>lt - (D + c)\<bar> \<le> 9 / 250000000" "0 \<le> lt" "lt \<le> 71800000"
    unfolding lt_def D_def c_def
    by (rule calc_load_time_near calc_load_time_nonneg calc_load_time_le)+
  have t: "0 \<le> t" "t \<le> 255"
    by (simp_all add: t_def fp64_of_ui8_bounds)
  from lt t have "\<bar>t - lt\<bar> \<le> 71800000" by linarith
  then have "\<bar>fp64_round (t - lt) - (t - lt)\<bar> \<le> 71800000 / 2 ^ 52"
    by (intro fp64_round_near) simp_all
  then have x: "\<bar>x - (t - lt)\<bar> \<le> 71800000 / 4503599627370496"
    by (simp add: x_def fsub_def)
  have r: "r = x - 60 * of_int k"
    by (simp add: r_def fmod_def k_def)
  have "\<bar>r\<bar> < 60"
    unfolding r_def by (rule fmod_abs_less) simp
  with BOOT_FUDGE_bounds have "\<bar>r + BOOT_FUDGE\<bar> \<le> 61" by linarith
  then have "\<bar>fp64_round (r + BOOT_FUDGE) - (r + BOOT_FUDGE)\<bar> \<le> 61 / 2 ^ 52"
    by (intro fp64_round_near) simp_all
  then have b: "\<bar>fadd r BOOT_FUDGE - (r + BOOT_FUDGE)\<bar> \<le> 61 / 4503599627370496"
    by (simp add: fadd_def)
  have f: "\<bar>BOOT_FUDGE - 1 / 5\<bar> \<le> 1 / 10000000000000000"
    by (simp add: BOOT_FUDGE_eq)
  from lt(1) x b f have "\<bar>fadd r BOOT_FUDGE - (t - c - D + 1 / 5 - 60 * of_int k)\<bar>
      \<le> 1 / 10000000"
    unfolding r by linarith
  then have "\<bar>calc_boot_time ts (calc_load_time cd cs td)
      - (fp64_of_ui8 ts - fp64_of_ui8 cs - fp64_of_ui32 (td - cd) * 10000 / 598261
         + 1 / 5 - 60 * of_int k)\<bar> \<le> 1 / 10000000"
    by (simp only: calc_boot_time_def r_def x_def t_def lt_def c_def D_def S_PER_MIN_eq)
  then show ?thesis ..
qed

lemma calc_boot_time_off_integers:
  "1 / 5000000 < \<bar>calc_boot_time ts (calc_load_time cd cs td) - of_int m\<bar>"
proof -
  define b where "b = calc_boot_time ts (calc_load_time cd cs td)"
  obtain k :: int where k: "\<bar>b - (fp64_of_ui8 ts - fp64_of_ui8 cs
      - fp64_of_ui32 (td - cd) * 10000 / 598261 + 1 / 5 - 60 * of_int k)\<bar> \<le> 1 / 10000000"
    unfolding b_def using calc_boot_time_near by blast
  define n where "n = int (unat ts) - int (unat cs) - 60 * k - m"
  define d where "d = unat (td - cd)"
  have n: "(of_int n :: rat) = of_nat (unat ts) - of_nat (unat cs) - 60 * of_int k - of_int m"
    unfolding n_def by (simp only: of_int_diff of_int_mult of_int_of_nat_eq of_int_numeral)
  from frames_off_fifth [of d n]
  have "1 / 2991305 \<le> \<bar>of_nat d * 10000 / 598261 - of_int n - 1 / 5 :: rat\<bar>" .
  with k show ?thesis
    unfolding n b_def [symmetric] fp64_of_ui8_nat fp64_of_ui32_nat d_def [symmetric]
    by linarith
qed

section \<open>The result of the loop and of the function\<close>

text \<open>
  The loop in closed form, the window of the boot time it returns, and the result of the
  release build for every input.
\<close>

lemma fadd_60_nonneg:
  assumes "- 60 \<le> b"
  shows "0 \<le> fadd b 60"
proof -
  from assms have "0 \<le> b + 60" by simp
  then show ?thesis unfolding fadd_def by (rule fp64_round_nonneg)
qed

lemma fadd_60_ge:
  assumes "0 \<le> b"
  shows "60 \<le> fadd b 60"
proof -
  from assms have "60 \<le> b + 60" by simp
  then have "fp64_round 60 \<le> fp64_round (b + 60)"
    by (rule fp64_round_mono)
  then show ?thesis by (simp only: fp64_round_60 fadd_def)
qed

lemma fadd_60_near:
  assumes "- 60 \<le> b" and "b < 14"
  shows "\<bar>fadd b 60 - (b + 60)\<bar> \<le> 75 / 4503599627370496"
proof -
  from assms have "\<bar>b + 60\<bar> \<le> 75" by linarith
  then have "\<bar>fp64_round (b + 60) - (b + 60)\<bar> \<le> 75 / 2 ^ 52"
    by (intro fp64_round_near) simp_all
  then show ?thesis by (simp add: fadd_def)
qed

lemma boot_loop_result:
  "\<exists>n b. boot_loop 0 (calc_boot_time ts (calc_load_time cd cs td)) = Some (n, b)
     \<and> n \<le> 2 \<and> 14 \<le> b \<and> b < 74
     \<and> \<bar>b - (calc_boot_time ts (calc_load_time cd cs td) + 60 * of_nat n)\<bar>
         \<le> of_nat n / 2 ^ 45"
proof -
  define b0 where "b0 = calc_boot_time ts (calc_load_time cd cs td)"
  define b1 where "b1 = fadd b0 60"
  define b2 where "b2 = fadd b1 60"
  have lo: "- 60 \<le> b0" and hi: "b0 \<le> 61"
    unfolding b0_def by (rule calc_boot_time_bounds)+
  have u: "boot_loop 0 b0 =
      (if b0 < 14 then if b1 < 14 then Some (2, b2) else Some (1, b1) else Some (0, b0))"
    unfolding b1_def b2_def using lo by (rule boot_loop_unfold)
  have off14: "1 / 5000000 < \<bar>b0 - 14\<bar>"
    using calc_boot_time_off_integers [of ts cd cs td 14] by (simp add: b0_def)
  have off46: "1 / 5000000 < \<bar>b0 + 46\<bar>"
    using calc_boot_time_off_integers [of ts cd cs td "- 46"] by (simp add: b0_def)
  have b1_0: "0 \<le> b1"
    unfolding b1_def using lo by (rule fadd_60_nonneg)
  consider "\<not> b0 < 14" | "b0 < 14" "\<not> b1 < 14" | "b0 < 14" "b1 < 14" by blast
  then have "\<exists>n b. boot_loop 0 b0 = Some (n, b) \<and> n \<le> 2 \<and> 14 \<le> b \<and> b < 74
      \<and> \<bar>b - (b0 + 60 * of_nat n)\<bar> \<le> of_nat n / 2 ^ 45"
  proof cases
    case 1
    with hi have "boot_loop 0 b0 = Some (0, b0) \<and> (0::nat) \<le> 2 \<and> 14 \<le> b0 \<and> b0 < 74
        \<and> \<bar>b0 - (b0 + 60 * of_nat 0)\<bar> \<le> of_nat 0 / 2 ^ 45"
      by (simp add: u)
    then show ?thesis by blast
  next
    case 2
    from fadd_60_near [OF lo 2(1)] have n1: "\<bar>b1 - (b0 + 60)\<bar> \<le> 75 / 4503599627370496"
      by (simp add: b1_def)
    with off14 2(1) have "b1 < 74" by linarith
    moreover from n1 have "\<bar>b1 - (b0 + 60 * of_nat 1)\<bar> \<le> of_nat 1 / 2 ^ 45"
      by simp
    ultimately have "boot_loop 0 b0 = Some (1, b1) \<and> (1::nat) \<le> 2 \<and> 14 \<le> b1 \<and> b1 < 74
        \<and> \<bar>b1 - (b0 + 60 * of_nat 1)\<bar> \<le> of_nat 1 / 2 ^ 45"
      using 2 by (simp add: u)
    then show ?thesis by blast
  next
    case 3
    have n1: "\<bar>b1 - (b0 + 60)\<bar> \<le> 75 / 4503599627370496"
      using fadd_60_near [OF lo 3(1)] by (simp add: b1_def)
    have "- 60 \<le> b1" using b1_0 by simp
    from fadd_60_near [OF this 3(2)] have n2: "\<bar>b2 - (b1 + 60)\<bar> \<le> 75 / 4503599627370496"
      by (simp add: b2_def)
    from n1 n2 off46 3(2) have "b2 < 74" by linarith
    moreover have "60 \<le> b2"
      unfolding b2_def using b1_0 by (rule fadd_60_ge)
    moreover from n1 n2 have "\<bar>b2 - (b0 + 120)\<bar> \<le> 2 / 35184372088832"
      by linarith
    then have "\<bar>b2 - (b0 + 60 * of_nat 2)\<bar> \<le> of_nat 2 / 2 ^ 45"
      by simp
    ultimately have "boot_loop 0 b0 = Some (2, b2) \<and> (2::nat) \<le> 2 \<and> 14 \<le> b2 \<and> b2 < 74
        \<and> \<bar>b2 - (b0 + 60 * of_nat 2)\<bar> \<le> of_nat 2 / 2 ^ 45"
      using 3 by (simp add: u)
    then show ?thesis by blast
  qed
  then show ?thesis by (simp only: b0_def)
qed

lemma time_data_steps_release:
  "\<exists>n b. n \<le> 2 \<and> 14 \<le> b \<and> b < 74 \<and>
     \<bar>b - (calc_boot_time ts (calc_load_time cd cs td) + 60 * of_nat n)\<bar>
       \<le> of_nat n / 2 ^ 45 \<and>
     time_data_steps False cd cs td ts =
       Some (Inr (\<lparr>boot_time = b, load_time = calc_load_time cd cs td,
         offset = ui8_of_fp64 (fdiv (fadd b (calc_load_time cd cs td)) S_PER_MIN)\<rparr>, n))"
proof -
  obtain n b where "boot_loop 0 (calc_boot_time ts (calc_load_time cd cs td)) = Some (n, b)"
    and "n \<le> 2" and "14 \<le> b" and "b < 74"
    and "\<bar>b - (calc_boot_time ts (calc_load_time cd cs td) + 60 * of_nat n)\<bar>
      \<le> of_nat n / 2 ^ 45"
    using boot_loop_result by blast
  then have "n \<le> 2 \<and> 14 \<le> b \<and> b < 74 \<and>
     \<bar>b - (calc_boot_time ts (calc_load_time cd cs td) + 60 * of_nat n)\<bar>
       \<le> of_nat n / 2 ^ 45 \<and>
     time_data_steps False cd cs td ts =
       Some (Inr (\<lparr>boot_time = b, load_time = calc_load_time cd cs td,
         offset = ui8_of_fp64 (fdiv (fadd b (calc_load_time cd cs td)) S_PER_MIN)\<rparr>, n))"
    by (simp add: time_data_steps_def Let_def)
  then show ?thesis by blast
qed

lemma time_data_steps_debug:
  "time_data_steps True cd cs td ts =
     (if calc_load_time cd cs td \<le> 0 then Some (Inl DebugBreak)
      else time_data_steps False cd cs td ts)"
  using calc_load_time_nonneg [of cd cs td]
  by (simp add: time_data_steps_def assert_breaks_def Let_def)

section \<open>Both builds, and the order of load times\<close>

text \<open>
  The debug build differs from the release build at a zero load time only. The load time
  is strictly increasing in the wrapped difference of the delays.
\<close>

lemma get_time_data_release:
  "\<exists>b. 14 \<le> b \<and> b < 74 \<and>
     get_time_data False cd cs td ts =
       Some (Inr \<lparr>boot_time = b, load_time = calc_load_time cd cs td,
         offset = ui8_of_fp64 (fdiv (fadd b (calc_load_time cd cs td)) S_PER_MIN)\<rparr>)"
proof -
  obtain n b where "14 \<le> b" and "b < 74" and
    "time_data_steps False cd cs td ts =
       Some (Inr (\<lparr>boot_time = b, load_time = calc_load_time cd cs td,
         offset = ui8_of_fp64 (fdiv (fadd b (calc_load_time cd cs td)) S_PER_MIN)\<rparr>, n))"
    using time_data_steps_release [of ts cd cs td] by blast
  then show ?thesis
    by (simp add: get_time_data_def)
qed

lemma get_time_data_debug:
  "get_time_data True cd cs td ts =
     (if calc_load_time cd cs td \<le> 0 then Some (Inl DebugBreak)
      else get_time_data False cd cs td ts)"
  by (simp add: get_time_data_def time_data_steps_debug)

lemma load_time_strict_mono:
  assumes "w1 < w2"
  shows "fadd (delay_to_second w1) (fp64_of_ui8 cs) < fadd (delay_to_second w2) (fp64_of_ui8 cs)"
proof -
  define c where "c = fp64_of_ui8 cs"
  define d1 where "d1 = fp64_of_ui32 w1"
  define d2 where "d2 = fp64_of_ui32 w2"
  define q1 where "q1 = delay_to_second w1"
  define q2 where "q2 = delay_to_second w2"
  have c: "0 \<le> c" "c \<le> 255"
    by (simp_all add: c_def fp64_of_ui8_bounds)
  have d: "0 \<le> d1" "d2 \<le> 4294967295"
    by (simp_all add: d1_def d2_def fp64_of_ui32_bounds)
  from assms have "unat w1 < unat w2" by (simp add: word_less_nat_alt)
  then have "unat w1 + 1 \<le> unat w2" by simp
  then have "(of_nat (unat w1 + 1) :: rat) \<le> of_nat (unat w2)"
    by (simp only: of_nat_le_iff)
  then have d12: "d1 + 1 \<le> d2"
    by (simp only: d1_def d2_def fp64_of_ui32_nat of_nat_add of_nat_1)
  have q1: "\<bar>q1 - d1 * 10000 / 598261\<bar> \<le> 1 / 50000000"
    unfolding q1_def d1_def by (rule delay_to_second_near)
  have q2: "\<bar>q2 - d2 * 10000 / 598261\<bar> \<le> 1 / 50000000"
    unfolding q2_def d2_def by (rule delay_to_second_near)
  have D: "0 \<le> d1 * 10000 / 598261" "d2 * 10000 / 598261 \<le> 71790863"
    "d1 * 10000 / 598261 + 1 / 60 \<le> d2 * 10000 / 598261"
    using d d12 by simp_all
  from q1 q2 D c d12 have "\<bar>q1 + c\<bar> \<le> 71791200" "\<bar>q2 + c\<bar> \<le> 71791200"
    by linarith+
  then have "\<bar>fp64_round (q1 + c) - (q1 + c)\<bar> \<le> 71791200 / 2 ^ 52"
    "\<bar>fp64_round (q2 + c) - (q2 + c)\<bar> \<le> 71791200 / 2 ^ 52"
    by (intro fp64_round_near; simp)+
  then have "\<bar>fp64_round (q1 + c) - (q1 + c)\<bar> \<le> 71791200 / 4503599627370496"
    "\<bar>fp64_round (q2 + c) - (q2 + c)\<bar> \<le> 71791200 / 4503599627370496"
    by simp_all
  with q1 q2 D(3) have "fp64_round (q1 + c) < fp64_round (q2 + c)"
    by linarith
  then show ?thesis
    by (simp only: fadd_def q1_def q2_def c_def)
qed

lemma calc_load_time_less_iff:
  "calc_load_time cd cs d1 < calc_load_time cd cs d2 \<longleftrightarrow> d1 - cd < d2 - cd"
proof
  assume "d1 - cd < d2 - cd"
  then show "calc_load_time cd cs d1 < calc_load_time cd cs d2"
    unfolding calc_load_time_def by (rule load_time_strict_mono)
next
  assume l: "calc_load_time cd cs d1 < calc_load_time cd cs d2"
  show "d1 - cd < d2 - cd"
  proof (rule ccontr)
    assume "\<not> d1 - cd < d2 - cd"
    then consider "d1 - cd = d2 - cd" | "d2 - cd < d1 - cd" by fastforce
    then show False
    proof cases
      case 1
      with l show False by (simp add: calc_load_time_def)
    next
      case 2
      then have "calc_load_time cd cs d2 < calc_load_time cd cs d1"
        unfolding calc_load_time_def by (rule load_time_strict_mono)
      with l show False by simp
    qed
  qed
qed

lemma ui32_sub_less_iff:
  assumes "d1 < d2"
  shows "d1 - cd < d2 - cd \<longleftrightarrow> cd \<le> d1 \<or> d2 < (cd :: ui32)"
proof -
  define a where "a = uint d1"
  define b where "b = uint d2"
  define c where "c = uint cd"
  have r: "0 \<le> a" "b < 4294967296" "0 \<le> c" "c < 4294967296"
    using uint_bounded [of d2] uint_bounded [of cd] by (simp_all add: a_def b_def c_def)
  from assms have ab: "a < b" by (simp add: word_less_alt a_def b_def)
  have s1: "uint (d1 - cd) = (if c \<le> a then a - c else a - c + 4294967296)"
    by (simp add: uint_sub_if' a_def c_def)
  have s2: "uint (d2 - cd) = (if c \<le> b then b - c else b - c + 4294967296)"
    by (simp add: uint_sub_if' b_def c_def)
  have "(if c \<le> a then a - c else a - c + 4294967296)
      < (if c \<le> b then b - c else b - c + 4294967296) \<longleftrightarrow> c \<le> a \<or> b < c"
    using r ab by auto
  then show ?thesis
    by (simp only: word_less_alt word_le_def s1 s2 a_def [symmetric] b_def [symmetric]
        c_def [symmetric])
qed

section \<open>From frames to seconds and back\<close>

text \<open>
  Up to \<open>10 ^ 7\<close> frames the double product \<open>delay_to_second d * NDS_FPS\<close> is within
  \<open>1 / 10 ^ 6\<close> of \<open>d\<close>.
\<close>

lemma trunc_nonneg: "0 \<le> x \<Longrightarrow> trunc x = \<lfloor>x\<rfloor>"
  by (simp add: trunc_def)

lemma round_trip_near:
  assumes "unat w \<le> 10000000"
  shows "\<bar>fmul (delay_to_second w) NDS_FPS - fp64_of_ui32 w\<bar> \<le> 1 / 1000000"
    and "0 \<le> fmul (delay_to_second w) NDS_FPS"
proof -
  define d where "d = fp64_of_ui32 w"
  define q where "q = delay_to_second w"
  have "(of_nat (unat w) :: rat) \<le> of_nat 10000000"
    using assms by (simp only: of_nat_le_iff)
  then have "d \<le> 10000000"
    unfolding d_def fp64_of_ui32_nat by (simp only: of_nat_numeral)
  with fp64_of_ui32_bounds(1) [of w] have d: "0 \<le> d" "d \<le> 10000000"
    by (simp_all add: d_def)
  have f: "d / NDS_FPS = d * 4398046511104 / 263117970377959"
    by (simp add: NDS_FPS_eq)
  have "\<bar>d / NDS_FPS\<bar> \<le> 170000"
    using d by (simp add: f abs_le_iff)
  then have "\<bar>fp64_round (d / NDS_FPS) - d / NDS_FPS\<bar> \<le> 170000 / 2 ^ 52"
    by (intro fp64_round_near) simp_all
  then have "\<bar>fp64_round (d / NDS_FPS) - d / NDS_FPS\<bar> \<le> 170000 / 4503599627370496"
    by simp
  then have q: "\<bar>q - d * 4398046511104 / 263117970377959\<bar> \<le> 170000 / 4503599627370496"
    unfolding q_def delay_to_second_def fdiv_def d_def [symmetric] f .
  have q0: "0 \<le> q"
    unfolding q_def by (rule delay_to_second_nonneg)
  have m: "q * NDS_FPS = q * 263117970377959 / 4398046511104"
    by (simp add: NDS_FPS_eq)
  from q d have "q \<le> 170001" by linarith
  with q0 have "\<bar>q * NDS_FPS\<bar> \<le> 10200060"
    by (simp add: m abs_le_iff)
  then have "\<bar>fp64_round (q * NDS_FPS) - q * NDS_FPS\<bar> \<le> 10200060 / 2 ^ 52"
    by (intro fp64_round_near) simp_all
  then have "\<bar>fp64_round (q * NDS_FPS) - q * NDS_FPS\<bar> \<le> 10200060 / 4503599627370496"
    by simp
  then have p: "\<bar>fmul q NDS_FPS - q * 263117970377959 / 4398046511104\<bar>
      \<le> 10200060 / 4503599627370496"
    unfolding fmul_def m .
  from q p have "\<bar>fmul q NDS_FPS - d\<bar> \<le> 1 / 1000000"
    by linarith
  then show "\<bar>fmul (delay_to_second w) NDS_FPS - fp64_of_ui32 w\<bar> \<le> 1 / 1000000"
    by (simp only: q_def d_def)
  have "0 \<le> q * NDS_FPS" using q0 by (simp add: m)
  then show "0 \<le> fmul (delay_to_second w) NDS_FPS"
    unfolding fmul_def q_def by (rule fp64_round_nonneg)
qed

lemma second_to_delay_after_delay_to_second:
  assumes "unat w \<le> 10000000"
  shows "second_to_delay (delay_to_second w) = w \<or>
    0 < w \<and> second_to_delay (delay_to_second w) = w - 1"
proof -
  define p where "p = fmul (delay_to_second w) NDS_FPS"
  define u where "u = uint w"
  have n: "\<bar>p - of_int u\<bar> \<le> 1 / 1000000" and p0: "0 \<le> p"
    using round_trip_near [OF assms] by (simp_all only: p_def fp64_of_ui32_def u_def)
  have s: "second_to_delay (delay_to_second w) = word_of_int \<lfloor>p\<rfloor>"
    using p0 by (simp add: second_to_delay_def ui32_of_fp64_def trunc_nonneg p_def)
  have "(of_int (u - 1) :: rat) = of_int u - 1" "(of_int (u + 1) :: rat) = of_int u + 1"
    by simp_all
  with n have "of_int (u - 1) \<le> p" "p < of_int (u + 1)"
    by linarith+
  then have "u - 1 \<le> \<lfloor>p\<rfloor>" "\<lfloor>p\<rfloor> < u + 1"
    by (simp_all only: le_floor_iff floor_less_iff)
  then consider "\<lfloor>p\<rfloor> = u" | "\<lfloor>p\<rfloor> = u - 1" by linarith
  then show ?thesis
  proof cases
    case 1
    then show ?thesis by (simp add: s u_def)
  next
    case 2
    from p0 have "0 \<le> \<lfloor>p\<rfloor>" by simp
    with 2 have "0 < uint w" by (simp add: u_def)
    then have "0 < w" by (simp add: word_less_alt)
    moreover have "word_of_int (uint w - 1) = w - 1" by simp
    ultimately show ?thesis by (simp add: s 2 u_def)
  qed
qed

section \<open>Some runs, evaluated\<close>

text \<open>
  The values of the two scenarios of the specification, of a run across the wrap and of two
  conversions, by evaluation of the model.
\<close>

lemma wrapped_frames: "(1000 :: ui32) - 2000 = 4294966296"
  by simp

lemma wrapped_load_time_value: "fadd (fdiv 4294966296 NDS_FPS) 10 = 4817802751499159 / 67108864"
  by code_simp

lemma load_time_2000_10_1000: "calc_load_time 2000 10 1000 = 4817802751499159 / 67108864"
  by (simp add: calc_load_time_def delay_to_second_def fp64_of_ui32_def fp64_of_ui8_def wrapped_load_time_value)

lemma scenario_load_time_value: "fadd (fdiv 598 NDS_FPS) 30 = 5628885546598003 / 140737488355328"
  by code_simp

lemma load_time_1000_30_1598: "calc_load_time 1000 30 1598 = 5628885546598003 / 140737488355328"
  by (simp add: calc_load_time_def delay_to_second_def fp64_of_ui32_def fp64_of_ui8_def scenario_load_time_value)

lemma scenario_boot_time_value: "fadd (fmod (fsub 45 (5628885546598003 / 140737488355328)) S_PER_MIN) BOOT_FUDGE
    = 5859591416502581 / 1125899906842624"
  by code_simp

lemma boot_time_45: "calc_boot_time 45 (5628885546598003 / 140737488355328)
    = 5859591416502581 / 1125899906842624"
  by (simp add: calc_boot_time_def fp64_of_ui8_def scenario_boot_time_value)

lemma scenario_boot_time_plus_60: "fadd (5859591416502581 / 1125899906842624) 60 = 4588349114191251 / 70368744177664"
  by code_simp

lemma scenario_offset_value: "trunc (fdiv (fadd (4588349114191251 / 70368744177664)
    (5628885546598003 / 140737488355328)) S_PER_MIN) = 1"
  by code_simp

lemma steps_scenario:
  "time_data_steps False 1000 30 1598 45 =
     Some (Inr (\<lparr>boot_time = 4588349114191251 / 70368744177664,
       load_time = 5628885546598003 / 140737488355328, offset = 1\<rparr>, 1))"
proof -
  have "boot_loop 0 (5859591416502581 / 1125899906842624)
      = Some (1, 4588349114191251 / 70368744177664)"
    by (subst boot_loop_unfold) (simp_all add: scenario_boot_time_plus_60)
  then show ?thesis
    by (simp add: time_data_steps_def load_time_1000_30_1598 boot_time_45 Let_def
        ui8_of_fp64_def scenario_offset_value)
qed

lemma full_wrap_load_time_value: "fadd (fdiv 4294967295 NDS_FPS) 0 = 4817803201021007 / 67108864"
  by code_simp

lemma load_time_5_0_4: "calc_load_time 5 0 4 = 4817803201021007 / 67108864"
proof -
  have "uint ((4 :: ui32) - 5) = 4294967295"
    by (subst ui32_sub_underflow) simp
  moreover have "fp64_of_ui8 0 = 0" by (rule fp64_of_ui8_0)
  ultimately show ?thesis
    by (simp only: calc_load_time_def delay_to_second_def fp64_of_ui32_def
        of_int_numeral full_wrap_load_time_value)
qed

lemma load_time_5_0_5: "calc_load_time 5 0 5 = 0"
  by (simp add: calc_load_time_eq_0_iff)

lemma half_second_frames: "fmul (1 / 2) NDS_FPS = 263117970377959 / 8796093022208"
  by code_simp

lemma round_trip_product_15:
  "fmul (fdiv 15 NDS_FPS) NDS_FPS = 8444249301319679 / 562949953421312"
  by code_simp

lemma round_trip_15: "second_to_delay (delay_to_second 15) = 14"
proof -
  have "\<lfloor>8444249301319679 / 562949953421312 :: rat\<rfloor> = 14"
    by (rule floor_unique) simp_all
  then show ?thesis
    by (simp add: second_to_delay_def delay_to_second_def fp64_of_ui32_def ui32_of_fp64_def
        round_trip_product_15 trunc_def)
qed

section \<open>The claims\<close>

text \<open>
  Claim C1, as the program has it. For \<open>calibrated_delay = 2000\<close>, \<open>calibrated_second = 10\<close>,
  \<open>target_delay = 1000\<close>, \<open>target_second = 5\<close> the difference \<open>1000 - 2000\<close> of two
  \<open>ui32\<close> wraps to \<open>4294966296\<close> frames, so the load time is
  \<open>delay_to_second 4294966296 + 10\<close>, the double \<open>4817802751499159 / 2 ^ 26\<close>, a little
  above \<open>71790855\<close> seconds. It is positive, the assertion does not stop the debug build,
  and both builds return the same time data.
\<close>

theorem wrapped_scenario_load_time_positive:
  "calc_load_time 2000 10 1000 = fadd (delay_to_second 4294966296) (fp64_of_ui8 10) \<and>
   (\<exists>r. get_time_data False 2000 10 1000 5 = Some (Inr r) \<and>
      get_time_data True 2000 10 1000 5 = Some (Inr r) \<and>
      load_time r = 4817802751499159 / 67108864 \<and>
      71790855 < load_time r \<and> load_time r < 71790856)"
proof -
  obtain b where r: "get_time_data False 2000 10 1000 5 =
      Some (Inr \<lparr>boot_time = b, load_time = calc_load_time 2000 10 1000,
        offset = ui8_of_fp64 (fdiv (fadd b (calc_load_time 2000 10 1000)) S_PER_MIN)\<rparr>)"
    using get_time_data_release [of 2000 10 1000 5] by blast
  have "get_time_data True 2000 10 1000 5 = get_time_data False 2000 10 1000 5"
    by (simp add: get_time_data_debug load_time_2000_10_1000)
  moreover have "calc_load_time 2000 10 1000 = fadd (delay_to_second 4294966296) (fp64_of_ui8 10)"
    by (simp only: calc_load_time_def wrapped_frames)
  ultimately show ?thesis
    using r by (simp add: load_time_2000_10_1000)
qed

text \<open>
  Claim C1 as stated says that this load time is negative. It is not.
\<close>

theorem wrapped_scenario_not_negative:
  "\<not> calc_load_time 2000 10 1000 < 0"
  by (simp add: load_time_2000_10_1000)

text \<open>
  Claim C2. For every input \<open>get_time_data\<close> returns (release build) and the load time it
  returns is at least the calibrated second as a double, hence never negative. It is zero
  exactly when \<open>target_delay = calibrated_delay\<close> and \<open>calibrated_second = 0\<close>, so
  \<open>load_time \<le> 0\<close> can only hold as \<open>load_time = 0\<close>.
\<close>

theorem load_time_at_least_calibrated_second:
  "\<exists>r. get_time_data False cd cs td ts = Some (Inr r) \<and>
     load_time r = calc_load_time cd cs td \<and>
     fp64_of_ui8 cs \<le> load_time r \<and> 0 \<le> load_time r \<and>
     (load_time r = 0) = (td = cd \<and> cs = 0) \<and>
     (load_time r \<le> 0) = (load_time r = 0)"
proof -
  obtain b where "get_time_data False cd cs td ts =
      Some (Inr \<lparr>boot_time = b, load_time = calc_load_time cd cs td,
        offset = ui8_of_fp64 (fdiv (fadd b (calc_load_time cd cs td)) S_PER_MIN)\<rparr>)"
    using get_time_data_release [of cd cs td ts] by blast
  moreover have "(calc_load_time cd cs td \<le> 0) = (calc_load_time cd cs td = 0)"
    using calc_load_time_nonneg [of cd cs td] by linarith
  ultimately show ?thesis
    using calc_load_time_ge [of cs cd td] calc_load_time_nonneg [of cd cs td]
      calc_load_time_eq_0_iff [of cd cs td]
    by simp
qed

text \<open>
  Claim C3. For every input the boot time that \<open>get_time_data\<close> returns is at least
  \<open>MIN_BOOT_TIME = 14\<close> and below \<open>MIN_BOOT_TIME + S_PER_MIN = 74\<close>. The release build
  always returns; the debug build returns the same time data unless the load time is zero,
  where it stops. The upper bound holds in double arithmetic because the boot time before
  the loop is never within \<open>2 / 10 ^ 7\<close> of an integer
  (\<open>calc_boot_time_off_integers\<close>), so an addition of \<open>60\<close> never rounds up to \<open>74\<close>.
\<close>

theorem boot_time_window:
  "MIN_BOOT_TIME = 14 \<and> S_PER_MIN = 60 \<and>
   (\<exists>r. get_time_data False cd cs td ts = Some (Inr r) \<and>
      MIN_BOOT_TIME \<le> boot_time r \<and> boot_time r < MIN_BOOT_TIME + S_PER_MIN \<and>
      get_time_data True cd cs td ts =
        (if load_time r \<le> 0 then Some (Inl DebugBreak) else Some (Inr r)))"
proof -
  obtain b where "14 \<le> b" and "b < 74" and "get_time_data False cd cs td ts =
      Some (Inr \<lparr>boot_time = b, load_time = calc_load_time cd cs td,
        offset = ui8_of_fp64 (fdiv (fadd b (calc_load_time cd cs td)) S_PER_MIN)\<rparr>)"
    using get_time_data_release [of cd cs td ts] by blast
  then show ?thesis
    by (simp add: MIN_BOOT_TIME_eq S_PER_MIN_eq get_time_data_debug)
qed

text \<open>
  Claim C4, as the program has it. With \<open>calibrated_delay\<close>, \<open>calibrated_second\<close> and
  \<open>target_second\<close> fixed and two target delays \<open>d1 < d2\<close>, the load time for \<open>d2\<close> is
  strictly greater than the one for \<open>d1\<close> exactly when the two delays lie on the same side
  of the calibrated delay (\<open>calibrated_delay \<le> d1\<close>, or \<open>d2 < calibrated_delay\<close>): then the
  subtraction wraps for both or for neither.
\<close>

theorem load_time_monotone_between_wraps:
  assumes "d1 < d2"
  shows "\<exists>r1 r2. get_time_data False cd cs d1 ts = Some (Inr r1) \<and>
    get_time_data False cd cs d2 ts = Some (Inr r2) \<and>
    (load_time r1 < load_time r2) = (cd \<le> d1 \<or> d2 < cd)"
proof -
  obtain b1 where "get_time_data False cd cs d1 ts =
      Some (Inr \<lparr>boot_time = b1, load_time = calc_load_time cd cs d1,
        offset = ui8_of_fp64 (fdiv (fadd b1 (calc_load_time cd cs d1)) S_PER_MIN)\<rparr>)"
    using get_time_data_release [of cd cs d1 ts] by blast
  moreover obtain b2 where "get_time_data False cd cs d2 ts =
      Some (Inr \<lparr>boot_time = b2, load_time = calc_load_time cd cs d2,
        offset = ui8_of_fp64 (fdiv (fadd b2 (calc_load_time cd cs d2)) S_PER_MIN)\<rparr>)"
    using get_time_data_release [of cd cs d2 ts] by blast
  ultimately show ?thesis
    using ui32_sub_less_iff [OF assms, of cd] calc_load_time_less_iff [of cd cs d1 d2]
    by simp
qed

text \<open>Claim C4, the theorem at \<open>calibrated_delay = 1000\<close>, \<open>d1 = 1000\<close>, \<open>d2 = 1598\<close>.\<close>

theorem load_time_monotone_between_wraps_witness:
  "(1000 :: ui32) < 1598 \<and>
   (\<exists>r1 r2. get_time_data False 1000 30 1000 45 = Some (Inr r1) \<and>
      get_time_data False 1000 30 1598 45 = Some (Inr r2) \<and>
      load_time r1 < load_time r2)"
proof -
  have h: "(1000 :: ui32) < 1598" by simp
  from load_time_monotone_between_wraps [OF h, of 1000 30 45] h show ?thesis by simp
qed

text \<open>
  Claim C4 as stated asks for this order for every pair \<open>d1 < d2\<close>. It fails when the
  calibrated delay lies between them: with \<open>calibrated_delay = 5\<close> the target delay \<open>4\<close>
  wraps to \<open>4294967295\<close> frames and its load time is about \<open>71790862\<close> seconds, the
  target delay \<open>5\<close> gives a load time of \<open>0\<close>.
\<close>

theorem load_time_not_monotone_across_wrap:
  "(4 :: ui32) < 5 \<and> calc_load_time 5 0 4 = 4817803201021007 / 67108864 \<and>
   calc_load_time 5 0 5 = 0 \<and> \<not> calc_load_time 5 0 4 < calc_load_time 5 0 5"
  by (simp add: load_time_5_0_4 load_time_5_0_5)

text \<open>
  Claim C5. The debug build stops in \<open>get_time_data\<close> exactly when the load time satisfies
  \<open>load_time \<le> 0\<close>; otherwise it returns what the release build returns. The release build
  does not check anything: it returns a time data for every input, with the computed load
  time. (The condition the debug build tests is \<open>(!load_time) > 0.0\<close>, true for a zero load
  time only; a load time is never negative, so this is the same as \<open>load_time \<le> 0\<close>.)
\<close>

theorem assertion_only_in_debug_build:
  "(get_time_data True cd cs td ts = Some (Inl DebugBreak)) = (calc_load_time cd cs td \<le> 0) \<and>
   (\<exists>r. get_time_data False cd cs td ts = Some (Inr r) \<and>
      load_time r = calc_load_time cd cs td \<and>
      get_time_data True cd cs td ts =
        (if load_time r \<le> 0 then Some (Inl DebugBreak) else Some (Inr r)))"
proof -
  obtain b where "get_time_data False cd cs td ts =
      Some (Inr \<lparr>boot_time = b, load_time = calc_load_time cd cs td,
        offset = ui8_of_fp64 (fdiv (fadd b (calc_load_time cd cs td)) S_PER_MIN)\<rparr>)"
    using get_time_data_release [of cd cs td ts] by blast
  then show ?thesis
    by (simp add: get_time_data_debug)
qed

text \<open>
  Claim C6. For every input the loop ends, after at most two additions of \<open>S_PER_MIN\<close>:
  \<open>time_data_steps\<close> returns, and the number \<open>n\<close> of additions it counts is at most \<open>2\<close>.
  The remainder is below \<open>60\<close> in magnitude, so the boot time before the loop lies between
  \<open>- 60\<close> and \<open>61\<close>, and every addition raises the boot time by \<open>60\<close> up to its rounding:
  the boot time returned is within \<open>n / 2 ^ 45\<close> of the one before the loop plus \<open>60 * n\<close>.
\<close>

theorem boot_loop_at_most_two_additions:
  "\<exists>r n. time_data_steps False cd cs td ts = Some (Inr (r, n)) \<and> n \<le> 2 \<and>
     get_time_data False cd cs td ts = Some (Inr r) \<and>
     \<bar>fmod (fsub (fp64_of_ui8 ts) (load_time r)) S_PER_MIN\<bar> < S_PER_MIN \<and>
     - S_PER_MIN \<le> calc_boot_time ts (load_time r) \<and>
     calc_boot_time ts (load_time r) \<le> S_PER_MIN + 1 \<and>
     \<bar>boot_time r - (calc_boot_time ts (load_time r) + S_PER_MIN * of_nat n)\<bar>
       \<le> of_nat n / 2 ^ 45"
proof -
  obtain n b where "n \<le> 2"
    and "\<bar>b - (calc_boot_time ts (calc_load_time cd cs td) + 60 * of_nat n)\<bar>
      \<le> of_nat n / 2 ^ 45"
    and "time_data_steps False cd cs td ts =
      Some (Inr (\<lparr>boot_time = b, load_time = calc_load_time cd cs td,
        offset = ui8_of_fp64 (fdiv (fadd b (calc_load_time cd cs td)) S_PER_MIN)\<rparr>, n))"
    using time_data_steps_release [of ts cd cs td] by blast
  moreover have "\<bar>fmod (fsub (fp64_of_ui8 ts) (calc_load_time cd cs td)) 60\<bar> < 60"
    by (rule fmod_abs_less) simp
  ultimately show ?thesis
    using calc_boot_time_bounds [of ts "calc_load_time cd cs td"]
    by (simp add: get_time_data_def S_PER_MIN_eq)
qed

text \<open>
  Claim C7. For every delay \<open>d\<close> from \<open>0\<close> to \<open>10000000\<close>,
  \<open>second_to_delay (delay_to_second d)\<close> is \<open>d\<close> or \<open>d - 1\<close>.
\<close>

theorem frames_round_trip:
  assumes "w \<le> 10000000"
  shows "second_to_delay (delay_to_second w) = w \<or>
    second_to_delay (delay_to_second w) = w - 1"
proof -
  from assms have "unat w \<le> 10000000"
    by (simp add: word_le_nat_alt)
  from second_to_delay_after_delay_to_second [OF this] show ?thesis by blast
qed

text \<open>Claim C7, the theorem at \<open>d = 15\<close> (where the result is \<open>14\<close>).\<close>

theorem frames_round_trip_witness:
  "(15 :: ui32) \<le> 10000000 \<and>
   (second_to_delay (delay_to_second 15) = 15 \<or>
    second_to_delay (delay_to_second 15) = 15 - 1) \<and>
   second_to_delay (delay_to_second 15) = 14"
proof -
  have h: "(15 :: ui32) \<le> 10000000" by simp
  from frames_round_trip [OF h] h round_trip_15 show ?thesis by simp
qed

text \<open>
  Claim C8, as the program has it. For \<open>calibrated_delay = 1000\<close>, \<open>calibrated_second = 30\<close>,
  \<open>target_delay = 1598\<close>, \<open>target_second = 45\<close> both builds return the load time
  \<open>(1598 - 1000) / NDS_FPS + 30\<close>, the double \<open>5628885546598003 / 2 ^ 47\<close>, which is
  \<open>39.9956\<close> to four decimals; the boot time before the loop is about \<open>5.2044\<close>, the loop
  adds \<open>60\<close> exactly once and the boot time returned is \<open>4588349114191251 / 2 ^ 46\<close>,
  which is \<open>65.2044\<close> to four decimals; the offset is \<open>1\<close>.
\<close>

theorem scenario_1000_30_1598_45:
  "get_time_data False 1000 30 1598 45 =
     Some (Inr \<lparr>boot_time = 4588349114191251 / 70368744177664,
       load_time = 5628885546598003 / 140737488355328, offset = 1\<rparr>) \<and>
   get_time_data True 1000 30 1598 45 = get_time_data False 1000 30 1598 45 \<and>
   time_data_steps False 1000 30 1598 45 =
     Some (Inr (\<lparr>boot_time = 4588349114191251 / 70368744177664,
       load_time = 5628885546598003 / 140737488355328, offset = 1\<rparr>, 1)) \<and>
   calc_load_time 1000 30 1598 = fadd (fdiv (1598 - 1000) NDS_FPS) 30 \<and>
   fadd (calc_boot_time 45 (5628885546598003 / 140737488355328)) S_PER_MIN
     = 4588349114191251 / 70368744177664 \<and>
   \<bar>5628885546598003 / 140737488355328 - 399956 / 10000 :: rat\<bar> \<le> 1 / 10000 \<and>
   \<bar>4588349114191251 / 70368744177664 - 652044 / 10000 :: rat\<bar> \<le> 1 / 10000"
  by (simp add: get_time_data_def get_time_data_debug steps_scenario load_time_1000_30_1598
      time_data_steps_debug scenario_load_time_value boot_time_45 scenario_boot_time_plus_60
      S_PER_MIN_eq)

text \<open>
  Claim C8 as stated gives the load time as approximately \<open>39.993\<close> (and the boot time as
  approximately \<open>65.207\<close>). Read with the precision of the digits given, that is false: the
  load time differs from \<open>39.993\<close> by more than \<open>0.001\<close>.
\<close>

theorem scenario_load_time_not_39_993:
  "\<not> \<bar>calc_load_time 1000 30 1598 - 39993 / 1000\<bar> \<le> 1 / 1000"
  by (simp add: load_time_1000_30_1598)

text \<open>
  Claim C9. For a double \<open>s \<ge> 0\<close> whose double product with \<open>NDS_FPS\<close> is below \<open>2 ^ 32\<close>,
  \<open>second_to_delay s\<close> is the floor of that product (the truncation toward zero and the
  floor agree there, and the conversion to \<open>ui32\<close> does not wrap); and for every
  \<open>ui32\<close> \<open>d\<close>, \<open>delay_to_second d\<close> is the quotient \<open>d / NDS_FPS\<close> rounded to a double,
  where \<open>NDS_FPS\<close> is the double nearest to \<open>59.8261\<close>; it is within \<open>2 / 10 ^ 8\<close> of the
  exact quotient \<open>d / 59.8261\<close>.
\<close>

theorem conversions_are_double_operations:
  assumes "0 \<le> s" and "fmul s NDS_FPS < 2 ^ 32"
  shows "uint (second_to_delay s) = \<lfloor>fp64_round (s * NDS_FPS)\<rfloor> \<and>
    trunc (fp64_round (s * NDS_FPS)) = \<lfloor>fp64_round (s * NDS_FPS)\<rfloor> \<and>
    delay_to_second d = fp64_round (of_int (uint d) / NDS_FPS) \<and>
    NDS_FPS = fp64_round (598261 / 10000) \<and>
    \<bar>delay_to_second d - of_int (uint d) / (598261 / 10000)\<bar> \<le> 1 / 50000000"
proof -
  define p where "p = fp64_round (s * NDS_FPS)"
  have "0 \<le> s * NDS_FPS" using assms(1) by (simp add: NDS_FPS_eq)
  then have p0: "0 \<le> p" unfolding p_def by (rule fp64_round_nonneg)
  then have t: "trunc p = \<lfloor>p\<rfloor>" by (rule trunc_nonneg)
  from p0 have f0: "0 \<le> \<lfloor>p\<rfloor>" by simp
  from assms(2) have "p < of_int (2 ^ 32)" by (simp add: p_def fmul_def)
  then have f1: "\<lfloor>p\<rfloor> < 2 ^ 32" by (simp only: floor_less_iff)
  have "uint (word_of_int \<lfloor>p\<rfloor> :: ui32) = \<lfloor>p\<rfloor> mod 2 ^ 32"
    by (simp add: uint_word_of_int)
  also have "\<dots> = \<lfloor>p\<rfloor>" using f0 f1 by simp
  finally have "uint (second_to_delay s) = \<lfloor>p\<rfloor>"
    by (simp add: second_to_delay_def ui32_of_fp64_def fmul_def p_def [symmetric] t)
  moreover have "\<bar>delay_to_second d - of_int (uint d) / (598261 / 10000)\<bar> \<le> 1 / 50000000"
    using delay_to_second_near [of d] by (simp add: fp64_of_ui32_def)
  ultimately show ?thesis
    using t by (simp add: p_def delay_to_second_def fdiv_def fp64_of_ui32_def NDS_FPS_def)
qed

text \<open>Claim C9, the theorem at \<open>s = 1 / 2\<close> and \<open>d = 598\<close>.\<close>

theorem conversions_are_double_operations_witness:
  "(0 :: rat) \<le> 1 / 2 \<and> fmul (1 / 2) NDS_FPS < 2 ^ 32 \<and>
   uint (second_to_delay (1 / 2)) = 29 \<and>
   delay_to_second 598 = fp64_round (598 / NDS_FPS)"
proof -
  have h1: "(0 :: rat) \<le> 1 / 2" by simp
  have h2: "fmul (1 / 2) NDS_FPS < 2 ^ 32" by (simp add: half_second_frames)
  have v: "fp64_round (1 / 2 * NDS_FPS) = 263117970377959 / 8796093022208"
    using half_second_frames unfolding fmul_def .
  have f: "\<lfloor>263117970377959 / 8796093022208 :: rat\<rfloor> = 29"
    by (rule floor_unique) simp_all
  have u: "(of_int (uint (598 :: ui32)) :: rat) = 598" by simp
  from conversions_are_double_operations [OF h1 h2, of 598, unfolded v f u]
  have "uint (second_to_delay (1 / 2)) = 29"
    and "delay_to_second 598 = fp64_round (598 / NDS_FPS)"
    by blast+
  with h1 h2 show ?thesis by blast
qed

text \<open>
  Claim C10. The frame count that \<open>get_time_data\<close> converts to seconds is
  \<open>(target_delay - calibrated_delay) mod 2 ^ 32\<close>: when \<open>target_delay < calibrated_delay\<close>
  it is \<open>2 ^ 32 - (calibrated_delay - target_delay)\<close>, a large positive count, and never a
  negative one.
\<close>

theorem delay_difference_wraps:
  "calc_load_time cd cs td =
     fadd (fdiv (of_int ((uint td - uint cd) mod 2 ^ 32)) NDS_FPS) (fp64_of_ui8 cs) \<and>
   (uint td - uint cd) mod 2 ^ 32 =
     (if td < cd then 2 ^ 32 - (uint cd - uint td) else uint td - uint cd) \<and>
   0 \<le> (uint td - uint cd) mod 2 ^ 32 \<and>
   (\<exists>r. get_time_data False cd cs td ts = Some (Inr r) \<and>
      load_time r = calc_load_time cd cs td)"
proof -
  obtain b where "get_time_data False cd cs td ts =
      Some (Inr \<lparr>boot_time = b, load_time = calc_load_time cd cs td,
        offset = ui8_of_fp64 (fdiv (fadd b (calc_load_time cd cs td)) S_PER_MIN)\<rparr>)"
    using get_time_data_release [of cd cs td ts] by blast
  moreover have "calc_load_time cd cs td =
      fadd (fdiv (of_int ((uint td - uint cd) mod 2 ^ 32)) NDS_FPS) (fp64_of_ui8 cs)"
    by (simp only: calc_load_time_def delay_to_second_def fp64_of_ui32_def ui32_sub_wraps)
  moreover have "(uint td - uint cd) mod 2 ^ 32 =
      (if td < cd then 2 ^ 32 - (uint cd - uint td) else uint td - uint cd)"
    using ui32_sub_wraps [of td cd] ui32_sub_underflow [of td cd] by simp
  ultimately show ?thesis by simp
qed

end
